theory Spec2Isabelle
  imports Main "HOL-Library.Word" "HOL-Library.Monad_Syntax"
begin

unbundle bit_operations_syntax

section \<open>Event pool manager (source/rkhfwk_evtpool.c)\<close>

subsection \<open>The memory pool the event pool is built on\<close>

text \<open>
  Modelled from the spec: the native memory pool module (\<^verbatim>\<open>RKH_MP_T\<close>, \<^verbatim>\<open>rkh_mp_init\<close>,
  \<^verbatim>\<open>rkh_mp_get\<close>, \<^verbatim>\<open>rkh_mp_put\<close> of rkhmp.c) is not part of the sources at hand. The
  spec describes it as a fixed-size-block allocator over a caller-provided byte region
  with the attributes block size, total blocks, free-list head and current/minimum free
  counters, where a block is either on the free list or held by a client. Addresses and
  sizes are natural numbers.
\<close>

record RKH_MP_T =
  bsize :: nat
  nblocks :: nat
  free :: "nat list"
  nfree :: nat
  nmin :: nat

text \<open>
  Modelled from the spec: \<^verbatim>\<open>rkh_mp_init\<close> (rkhmp.c, not at hand) carves the region of
  \<open>ssize\<close> bytes starting at \<open>sstart\<close> into blocks of \<open>bs\<close> bytes, all of them free.
\<close>

definition rkh_mp_init :: "RKH_MP_T \<Rightarrow> nat \<Rightarrow> 16 word \<Rightarrow> nat \<Rightarrow> RKH_MP_T" where
  "rkh_mp_init mp sstart ssize bs =
     mp\<lparr>bsize := bs,
        nblocks := unat ssize div bs,
        free := map (\<lambda>k. sstart + k * bs) [0..<unat ssize div bs],
        nfree := unat ssize div bs,
        nmin := unat ssize div bs\<rparr>"

text \<open>
  Modelled from the spec: \<^verbatim>\<open>rkh_mp_get\<close> (rkhmp.c, not at hand) takes the block at the
  head of the free list, or yields the null pointer when no block is free.
\<close>

definition rkh_mp_get :: "RKH_MP_T \<Rightarrow> nat option \<times> RKH_MP_T" where
  "rkh_mp_get mp =
     (case free mp of
        [] \<Rightarrow> (None, mp)
      | b # bs \<Rightarrow> (Some b, mp\<lparr>free := bs, nfree := nfree mp - 1,
                                 nmin := min (nmin mp) (nfree mp - 1)\<rparr>))"

text \<open>
  Modelled from the spec: \<^verbatim>\<open>rkh_mp_put\<close> (rkhmp.c, not at hand) returns a block to the
  free list of its pool.
\<close>

definition rkh_mp_put :: "RKH_MP_T \<Rightarrow> nat \<Rightarrow> RKH_MP_T" where
  "rkh_mp_put mp blk = mp\<lparr>free := blk # free mp, nfree := nfree mp + 1\<rparr>"

subsection \<open>The registry of event pools\<close>

text \<open>
  \<^verbatim>\<open>struct RKHEvtPool { RKH_MP_T memPool; rui8_t isUsed; }\<close> and the static array
  \<^verbatim>\<open>evtPools[RKH_CFG_FWK_MAX_EVT_POOL]\<close>, a list. The configuration constant
  \<^verbatim>\<open>RKH_CFG_FWK_MAX_EVT_POOL\<close> is the parameter \<open>n\<close> of the operations. A pointer to a
  pool is the index of its slot; \<open>None\<close> is the null pointer.

  The types \<^verbatim>\<open>RKH_ES_T\<close> of an event size and \<^verbatim>\<open>RKH_MPBS_T\<close> of a block size are unsigned
  integers of configured widths. An event size is a natural number; the width of
  \<^verbatim>\<open>RKH_MPBS_T\<close> in bits is the parameter \<open>mpbs_bits\<close>, and the cast
  \<^verbatim>\<open>(RKH_MPBS_T)evtSize\<close> of \<^verbatim>\<open>rkh_evtPool_getPool\<close> keeps the event size modulo
  \<open>2 ^ mpbs_bits\<close>.
\<close>

record RKHEvtPool =
  memPool :: RKH_MP_T
  isUsed :: "8 word"

type_synonym pool_ptr = "nat option"

datatype error =
    Assert_Fail string  \<comment> \<open>\<^verbatim>\<open>rkh_assert\<close> hook called from the named module\<close>
  | Wild_Pointer        \<comment> \<open>a non-null pointer that designates no slot of the registry\<close>

text \<open>
  Modelled from the spec: the macro \<^verbatim>\<open>RKH_REQUIRE\<close> (rkhassert.h, not at hand) reports a
  violated precondition to the \<^verbatim>\<open>assert\<close> hook, which does not return to the caller.
  The module name is the one of \<^verbatim>\<open>RKH_MODULE_NAME(rkhfwk_evtpool)\<close>.
\<close>

definition RKH_REQUIRE :: "bool \<Rightarrow> error + unit" where
  "RKH_REQUIRE c = (if c then Inr () else Inl (Assert_Fail ''rkhfwk_evtpool''))"

function init_loop :: "nat \<Rightarrow> nat \<Rightarrow> RKHEvtPool list \<Rightarrow> RKHEvtPool list" where
  "init_loop n i pools =
     (if i < n then init_loop n (i + 1) (pools[i := (pools ! i)\<lparr>isUsed := 0\<rparr>])
      else pools)"
  by pat_completeness auto
termination
  by (relation "measure (\<lambda>(n, i, pools). n - i)") auto

definition rkh_evtPool_init :: "nat \<Rightarrow> RKHEvtPool list \<Rightarrow> RKHEvtPool list" where
  "rkh_evtPool_init n pools = init_loop n 0 pools"

function getPool_loop ::
  "nat \<Rightarrow> nat \<Rightarrow> nat \<Rightarrow> RKHEvtPool list \<Rightarrow> nat \<Rightarrow> 16 word \<Rightarrow> nat \<Rightarrow>
   pool_ptr \<times> RKHEvtPool list"
where
  "getPool_loop mpbs_bits n i pools stoStart stoSize evtSize =
     (if i < n then
        (if isUsed (pools ! i) = 0 then
           (Some i,
            pools[i := (pools ! i)\<lparr>memPool := rkh_mp_init (memPool (pools ! i))
                                                stoStart stoSize (evtSize mod 2 ^ mpbs_bits),
                                   isUsed := 1\<rparr>])
         else getPool_loop mpbs_bits n (i + 1) pools stoStart stoSize evtSize)
      else (None, pools))"
  by pat_completeness auto
termination
  by (relation "measure (\<lambda>(mpbs_bits, n, i, pools, stoStart, stoSize, evtSize). n - i)") auto

definition rkh_evtPool_getPool ::
  "nat \<Rightarrow> nat \<Rightarrow> RKHEvtPool list \<Rightarrow> nat \<Rightarrow> 16 word \<Rightarrow> nat \<Rightarrow> pool_ptr \<times> RKHEvtPool list"
where
  "rkh_evtPool_getPool mpbs_bits n pools stoStart stoSize evtSize =
     getPool_loop mpbs_bits n 0 pools stoStart stoSize evtSize"

text \<open>
  The accessors. \<^verbatim>\<open>rkh_evtPool_getBlockSize\<close> returns the block size cast to
  \<^verbatim>\<open>rui8_t\<close>.
\<close>

definition rkh_evtPool_getBlockSize :: "RKHEvtPool list \<Rightarrow> pool_ptr \<Rightarrow> error + 8 word" where
  "rkh_evtPool_getBlockSize pools me =
     (case RKH_REQUIRE (me \<noteq> None) of
        Inl e \<Rightarrow> Inl e
      | Inr _ \<Rightarrow>
          (case me of
             None \<Rightarrow> Inl Wild_Pointer
           | Some i \<Rightarrow>
               if i < length pools then Inr (of_nat (bsize (memPool (pools ! i))))
               else Inl Wild_Pointer))"

definition rkh_evtPool_get ::
  "RKHEvtPool list \<Rightarrow> pool_ptr \<Rightarrow> error + (nat option \<times> RKHEvtPool list)"
where
  "rkh_evtPool_get pools me =
     (case RKH_REQUIRE (me \<noteq> None) of
        Inl e \<Rightarrow> Inl e
      | Inr _ \<Rightarrow>
          (case me of
             None \<Rightarrow> Inl Wild_Pointer
           | Some i \<Rightarrow>
               if i < length pools then
                 (case rkh_mp_get (memPool (pools ! i)) of
                    (evt, mp) \<Rightarrow> Inr (evt, pools[i := (pools ! i)\<lparr>memPool := mp\<rparr>]))
               else Inl Wild_Pointer))"

definition rkh_evtPool_put ::
  "RKHEvtPool list \<Rightarrow> pool_ptr \<Rightarrow> nat \<Rightarrow> error + RKHEvtPool list"
where
  "rkh_evtPool_put pools me evt =
     (case RKH_REQUIRE (me \<noteq> None) of
        Inl e \<Rightarrow> Inl e
      | Inr _ \<Rightarrow>
          (case me of
             None \<Rightarrow> Inl Wild_Pointer
           | Some i \<Rightarrow>
               if i < length pools then
                 Inr (pools[i := (pools ! i)\<lparr>memPool := rkh_mp_put (memPool (pools ! i)) evt\<rparr>])
               else Inl Wild_Pointer))"

definition rkh_evtPool_getNumUsed :: "RKHEvtPool list \<Rightarrow> pool_ptr \<Rightarrow> error + 8 word" where
  "rkh_evtPool_getNumUsed pools me = Inr 0"

definition rkh_evtPool_getNumMin :: "RKHEvtPool list \<Rightarrow> pool_ptr \<Rightarrow> error + 8 word" where
  "rkh_evtPool_getNumMin pools me = Inr 0"

definition rkh_evtPool_getNumBlock :: "RKHEvtPool list \<Rightarrow> pool_ptr \<Rightarrow> error + 8 word" where
  "rkh_evtPool_getNumBlock pools me = Inr 0"

text \<open>
  A sequence of registrations, each with its own storage and event size: the results
  in call order, and the registry after the last call.
\<close>

fun getPool_many ::
  "nat \<Rightarrow> nat \<Rightarrow> RKHEvtPool list \<Rightarrow> (nat \<times> 16 word \<times> nat) list \<Rightarrow>
   pool_ptr list \<times> RKHEvtPool list"
where
  "getPool_many mpbs_bits n pools [] = ([], pools)"
| "getPool_many mpbs_bits n pools ((stoStart, stoSize, evtSize) # reqs) =
     (case rkh_evtPool_getPool mpbs_bits n pools stoStart stoSize evtSize of
        (ep, pools') \<Rightarrow>
          (case getPool_many mpbs_bits n pools' reqs of
             (eps, pools'') \<Rightarrow> (ep # eps, pools'')))"

text \<open>
  What a successful call of \<^verbatim>\<open>rkh_evtPool_getPool\<close> makes of the slot it takes: the
  memory pool initialised by \<^verbatim>\<open>rkh_mp_init\<close> with the arguments of the call, and
  \<^verbatim>\<open>isUsed\<close> set.
\<close>

definition registered_slot :: "nat \<Rightarrow> RKHEvtPool \<Rightarrow> nat \<times> 16 word \<times> nat \<Rightarrow> RKHEvtPool" where
  "registered_slot mpbs_bits ep r =
     (case r of
        (stoStart, stoSize, evtSize) \<Rightarrow>
          ep\<lparr>memPool := rkh_mp_init (memPool ep) stoStart stoSize (evtSize mod 2 ^ mpbs_bits),
             isUsed := 1\<rparr>)"

text \<open>
  The slots of a registry are used up to \<open>k\<close>: exactly the slots below \<open>k\<close> have
  \<^verbatim>\<open>isUsed\<close> set.
\<close>

definition used_upto :: "nat \<Rightarrow> RKHEvtPool list \<Rightarrow> bool" where
  "used_upto k pools = (\<forall>j<length pools. (isUsed (pools ! j) = 0) = (k \<le> j))"

subsection \<open>Allocation of an event from the registered pools\<close>

text \<open>
  The event header: the block that holds the event, the tag of the pool it came from
  (zero is the tag of a static event) and the reference count.
\<close>

record RKH_EVT_T =
  blk :: nat
  pool :: nat
  nref :: nat








text \<open>Registries and registrations to try the operations on.\<close>

definition leftover_pool :: "nat \<Rightarrow> 8 word \<Rightarrow> RKHEvtPool" where
  "leftover_pool bs u =
     \<lparr>memPool = \<lparr>bsize = bs, nblocks = 0, free = [], nfree = 0, nmin = 0\<rparr>, isUsed = u\<rparr>"



section \<open>Trace facility (rkhtrc.c)\<close>

subsection \<open>Constants of rkhtrc.h\<close>


definition FILTER_ON :: "8 word" where "FILTER_ON = 0"
definition FILTER_OFF :: "8 word" where "FILTER_OFF = 1"

definition ECHANGE :: "8 word" where "ECHANGE = 0"
definition EUNCHANGE :: "8 word" where "EUNCHANGE = 1"

definition RKH_TG_NGROUP :: "8 word" where "RKH_TG_NGROUP = 7"
definition RKH_TRC_ALL_GROUPS :: "8 word" where "RKH_TRC_ALL_GROUPS = RKH_TG_NGROUP"

definition RKH_TE_NEVENT :: "8 word" where "RKH_TE_NEVENT = 255"
definition RKH_TRC_ALL_EVENTS :: "8 word" where "RKH_TRC_ALL_EVENTS = RKH_TE_NEVENT"

definition RKH_MP_TTBL_RANGE :: "8 word" where "RKH_MP_TTBL_RANGE = 1"
definition RKH_RQ_TTBL_RANGE :: "8 word" where "RKH_RQ_TTBL_RANGE = 1"
definition RKH_SMA_TTBL_RANGE :: "8 word" where "RKH_SMA_TTBL_RANGE = 1"
definition RKH_SM_TTBL_RANGE :: "8 word" where "RKH_SM_TTBL_RANGE = 3"
definition RKH_TIM_TTBL_RANGE :: "8 word" where "RKH_TIM_TTBL_RANGE = 1"
definition RKH_FWK_TTBL_RANGE :: "8 word" where "RKH_FWK_TTBL_RANGE = 3"
definition RKH_USR_TTBL_RANGE :: "8 word" where "RKH_USR_TTBL_RANGE = 4"

definition RKH_MP_TTBL_OFFSET :: "8 word" where
  "RKH_MP_TTBL_OFFSET = 0"
definition RKH_RQ_TTBL_OFFSET :: "8 word" where
  "RKH_RQ_TTBL_OFFSET = RKH_MP_TTBL_OFFSET + RKH_MP_TTBL_RANGE"
definition RKH_SMA_TTBL_OFFSET :: "8 word" where
  "RKH_SMA_TTBL_OFFSET = RKH_RQ_TTBL_OFFSET + RKH_RQ_TTBL_RANGE"
definition RKH_SM_TTBL_OFFSET :: "8 word" where
  "RKH_SM_TTBL_OFFSET = RKH_SMA_TTBL_OFFSET + RKH_SMA_TTBL_RANGE"
definition RKH_TIM_TTBL_OFFSET :: "8 word" where
  "RKH_TIM_TTBL_OFFSET = RKH_SM_TTBL_OFFSET + RKH_SM_TTBL_RANGE"
definition RKH_FWK_TTBL_OFFSET :: "8 word" where
  "RKH_FWK_TTBL_OFFSET = RKH_TIM_TTBL_OFFSET + RKH_TIM_TTBL_RANGE"
definition RKH_USR_TTBL_OFFSET :: "8 word" where
  "RKH_USR_TTBL_OFFSET = RKH_FWK_TTBL_OFFSET + RKH_FWK_TTBL_RANGE"

text \<open>\<^verbatim>\<open>RKH_TRC_MAX_EVENTS_IN_BYTES\<close> is \<^verbatim>\<open>RKH_TOT_NUM_TRC_EVTS\<close>, the sum of the ranges.\<close>

definition RKH_TRC_MAX_EVENTS_IN_BYTES :: nat where
  "RKH_TRC_MAX_EVENTS_IN_BYTES =
     unat RKH_MP_TTBL_RANGE + unat RKH_RQ_TTBL_RANGE + unat RKH_SMA_TTBL_RANGE +
     unat RKH_SM_TTBL_RANGE + unat RKH_TIM_TTBL_RANGE + unat RKH_FWK_TTBL_RANGE +
     unat RKH_USR_TTBL_RANGE"

text \<open>
  \<^verbatim>\<open>RKH_TRC_MAX_SMA\<close>, the size in bytes of \<^verbatim>\<open>trcsmaftbl\<close>, as the chain of
  \<^verbatim>\<open>#if\<close>/\<^verbatim>\<open>#elif\<close> of rkhtrc.h derives it from \<^verbatim>\<open>RKH_MAX_SMA\<close>; the macro stays
  undefined above 64.
\<close>

definition RKH_TRC_MAX_SMA :: "nat \<Rightarrow> nat option" where
  "RKH_TRC_MAX_SMA max_sma =
     (if max_sma \<le> 8 then Some 1
      else if max_sma > 8 \<and> max_sma \<le> 16 then Some 2
      else if max_sma > 16 \<and> max_sma \<le> 24 then Some 3
      else if max_sma > 24 \<and> max_sma \<le> 32 then Some 4
      else if max_sma > 32 \<and> max_sma \<le> 40 then Some 5
      else if max_sma > 40 \<and> max_sma \<le> 48 then Some 6
      else if max_sma > 48 \<and> max_sma \<le> 56 then Some 7
      else if max_sma > 56 \<and> max_sma \<le> 64 then Some 8
      else None)"

definition GETGRP :: "8 word \<Rightarrow> 8 word" where
  "GETGRP e = drop_bit 5 (e AND 0xE0)"

definition GETEVT :: "8 word \<Rightarrow> 8 word" where
  "GETEVT e = e AND 0x1F"

text \<open>The table that maps \<open>(group << 4) + event\<close> to the event index in \<^verbatim>\<open>trceftbl\<close>.\<close>

definition trcgmtbl :: "8 word list" where
  "trcgmtbl =
     [ push_bit 4 RKH_MP_TTBL_OFFSET OR RKH_MP_TTBL_RANGE,
       push_bit 4 RKH_RQ_TTBL_OFFSET OR RKH_RQ_TTBL_RANGE,
       push_bit 4 RKH_SMA_TTBL_OFFSET OR RKH_SMA_TTBL_RANGE,
       push_bit 4 RKH_SM_TTBL_OFFSET OR RKH_SM_TTBL_RANGE,
       push_bit 4 RKH_TIM_TTBL_OFFSET OR RKH_TIM_TTBL_RANGE,
       push_bit 4 RKH_FWK_TTBL_OFFSET OR RKH_FWK_TTBL_RANGE,
       push_bit 4 RKH_USR_TTBL_OFFSET OR RKH_USR_TTBL_RANGE ]"

text \<open>
  Modelled from the spec: the table \<^verbatim>\<open>rkh_maptbl\<close> (rkhrdy.c) is not part of the sources
  at hand. It maps a bit position to the mask with that bit set, as the ready set's
  bitmap needs and as the comments on the filter tables (\<^verbatim>\<open>X's: bit position\<close>) and the
  disabled variant \<^verbatim>\<open>1 << grp\<close> in rkhtrc.c say.
\<close>

definition rkh_maptbl :: "8 word list" where
  "rkh_maptbl = [0x01, 0x02, 0x04, 0x08, 0x10, 0x20, 0x40, 0x80]"

text \<open>
  Reading a C array: an index outside the array is undefined behaviour, here \<open>None\<close>.
\<close>

definition tbl_read :: "'a list \<Rightarrow> nat \<Rightarrow> 'a option" where
  "tbl_read t i = (if i < length t then Some (t ! i) else None)"

text \<open>
  The loops \<^verbatim>\<open>for (p = start, ix = 0; ix < range; ++ix, ++p) *p = c;\<close> over a filter
  table; \<open>p\<close> is the index \<^verbatim>\<open>p\<close> points to. A store outside the table is \<open>None\<close>.
\<close>

function fill_loop :: "8 word list \<Rightarrow> nat \<Rightarrow> nat \<Rightarrow> nat \<Rightarrow> 8 word \<Rightarrow> 8 word list option" where
  "fill_loop t p ix rng c =
     (if ix < rng then
        (if p < length t then fill_loop (t[p := c]) (p + 1) (ix + 1) rng c else None)
      else Some t)"
  by pat_completeness auto
termination
  by (relation "measure (\<lambda>(t, p, ix, rng, c). rng - ix)") auto

subsection \<open>Runtime filter of trace events and groups\<close>

record trc_filters =
  trceftbl :: "8 word list"
  trcgfilter :: "8 word"

text \<open>
  The names of the source that end in an underscore carry the suffix \<open>fn\<close> here. The
  functions return \<^verbatim>\<open>HUInt\<close> truth values, here \<open>bool\<close>: \<open>True\<close> for 1. The
  operator \<^verbatim>\<open>&&\<close> of \<^verbatim>\<open>rkh_trc_isoff_\<close> evaluates its right operand only when the
  left one holds.
\<close>

definition rkh_trc_isoff_fn :: "trc_filters \<Rightarrow> 8 word \<Rightarrow> bool option" where
  "rkh_trc_isoff_fn s e =
     (let evt = GETEVT e; grp = GETGRP e in
      do {
        gm \<leftarrow> tbl_read rkh_maptbl (unat grp);
        if trcgfilter s AND gm \<noteq> 0 then
          do {
            g \<leftarrow> tbl_read trcgmtbl (unat grp);
            t \<leftarrow> tbl_read (trceftbl s) (unat (drop_bit 4 g + drop_bit 3 evt));
            m \<leftarrow> tbl_read rkh_maptbl (unat (evt AND 0x7));
            Some (t AND m \<noteq> 0)
          }
        else Some False
      })"

definition rkh_trc_filter_group_fn ::
  "8 word \<Rightarrow> 8 word \<Rightarrow> 8 word \<Rightarrow> trc_filters \<Rightarrow> trc_filters option"
where
  "rkh_trc_filter_group_fn ctrl grp mode s =
     (if grp = RKH_TRC_ALL_GROUPS then
        Some (s\<lparr>trcgfilter := (if ctrl = FILTER_OFF then 0xFF else 0)\<rparr>)
      else
        do {
          gm \<leftarrow> tbl_read rkh_maptbl (unat grp);
          let s1 = (if ctrl = FILTER_OFF then s\<lparr>trcgfilter := trcgfilter s OR gm\<rparr>
                    else s\<lparr>trcgfilter := trcgfilter s AND NOT gm\<rparr>);
          if mode = ECHANGE then
            do {
              g \<leftarrow> tbl_read trcgmtbl (unat grp);
              let offset = drop_bit 4 g;
              let rng = g AND 0x0F;
              ft \<leftarrow> fill_loop (trceftbl s1) (unat offset) 0 (unat rng)
                      (if ctrl = FILTER_OFF then 0xFF else 0);
              Some (s1\<lparr>trceftbl := ft\<rparr>)
            }
          else Some s1
        })"

definition rkh_trc_filter_event_fn :: "8 word \<Rightarrow> 8 word \<Rightarrow> trc_filters \<Rightarrow> trc_filters option" where
  "rkh_trc_filter_event_fn ctrl evt s =
     (if evt = RKH_TRC_ALL_EVENTS then
        do {
          ft \<leftarrow> fill_loop (trceftbl s) 0 0 RKH_TRC_MAX_EVENTS_IN_BYTES
                  (if ctrl = FILTER_OFF then 0xFF else 0);
          Some (s\<lparr>trceftbl := ft, trcgfilter := (if ctrl = FILTER_OFF then 0xFF else 0)\<rparr>)
        }
      else
        (let e = GETEVT evt; grp = GETGRP evt in
         do {
           g \<leftarrow> tbl_read trcgmtbl (unat grp);
           let offset = drop_bit 4 g + drop_bit 3 e;
           if ctrl = FILTER_OFF then
             do {
               t \<leftarrow> tbl_read (trceftbl s) (unat offset);
               m \<leftarrow> tbl_read rkh_maptbl (unat (e AND 0x7));
               gm \<leftarrow> tbl_read rkh_maptbl (unat grp);
               Some (s\<lparr>trceftbl := (trceftbl s)[unat offset := t OR m],
                       trcgfilter := trcgfilter s OR gm\<rparr>)
             }
           else
             do {
               t \<leftarrow> tbl_read (trceftbl s) (unat offset);
               m \<leftarrow> tbl_read rkh_maptbl (unat (e AND 0x7));
               Some (s\<lparr>trceftbl := (trceftbl s)[unat offset := t AND NOT m]\<rparr>)
             }
         }))"

text \<open>
  The two filter bits of a trace event, as the comments on \<^verbatim>\<open>trcgfilter\<close> and
  \<^verbatim>\<open>trceftbl\<close> lay them out: the bit of its group in \<^verbatim>\<open>trcgfilter\<close>, and its own bit
  in the byte of \<^verbatim>\<open>trceftbl\<close> at the offset of its group plus the event number
  divided by 8.
\<close>

definition group_offset :: "8 word \<Rightarrow> nat" where
  "group_offset grp = unat (drop_bit 4 (trcgmtbl ! unat grp))"

definition group_range :: "8 word \<Rightarrow> nat" where
  "group_range grp = unat ((trcgmtbl ! unat grp) AND 0x0F)"

definition group_bit :: "trc_filters \<Rightarrow> 8 word \<Rightarrow> bool" where
  "group_bit s e = bit (trcgfilter s) (unat (GETGRP e))"

definition event_bit :: "trc_filters \<Rightarrow> 8 word \<Rightarrow> bool" where
  "event_bit s e =
     bit (trceftbl s ! (group_offset (GETGRP e) + unat (GETEVT e) div 8)) (unat (GETEVT e) mod 8)"

subsection \<open>Filters by active object priority and by signal\<close>





subsection \<open>Filter by active object priority, first version of rkhtrc.c\<close>

text \<open>
  \<^verbatim>\<open>rkh_trc_sma_isoff_\<close> over the table \<^verbatim>\<open>trcsmaftbl\<close>; the configuration constant
  \<^verbatim>\<open>RKH_MAX_SMA\<close> is the parameter \<open>max_sma\<close>. In this version a trace point is
  recorded when its bit in the table is clear.
\<close>

definition rkh_trc_sma_isoff_fn :: "nat \<Rightarrow> 8 word list \<Rightarrow> 8 word \<Rightarrow> bool option" where
  "rkh_trc_sma_isoff_fn max_sma trcsmaftbl prio =
     (if unat prio = max_sma then Some True
      else
        do {
          t \<leftarrow> tbl_read trcsmaftbl (unat (drop_bit 3 prio));
          m \<leftarrow> tbl_read rkh_maptbl (unat (prio AND 0x07));
          Some (t AND m = 0)
        })"

text \<open>
  The result is 1 (\<open>True\<close>) if the active object is not filtered and 0 otherwise, as
  rkhtrc.h documents the function; \<^verbatim>\<open>RKH_TRC_BEGIN\<close> records a trace event only when the
  result is 1. An active object is filtered out when the result is 0.
\<close>

definition sma_filtered_out :: "nat \<Rightarrow> 8 word list \<Rightarrow> 8 word \<Rightarrow> bool" where
  "sma_filtered_out max_sma trcsmaftbl prio =
     (rkh_trc_sma_isoff_fn max_sma trcsmaftbl prio = Some False)"

subsection \<open>Trace stream\<close>















section \<open>Properties of the event pool manager\<close>

declare init_loop.simps [simp del] getPool_loop.simps [simp del]

text \<open>
  C1: the introspection operations \<^verbatim>\<open>rkh_evtPool_getNumUsed\<close>, \<^verbatim>\<open>rkh_evtPool_getNumMin\<close>
  and \<^verbatim>\<open>rkh_evtPool_getNumBlock\<close> return zero for every pool argument and every state of
  the registry, so also for a pool from which blocks have been taken or returned.
\<close>

theorem evtPool_getNum_zero:
  "rkh_evtPool_getNumUsed pools me = Inr 0 \<and>
   rkh_evtPool_getNumMin pools me = Inr 0 \<and>
   rkh_evtPool_getNumBlock pools me = Inr 0"
  by (simp add: rkh_evtPool_getNumUsed_def rkh_evtPool_getNumMin_def
      rkh_evtPool_getNumBlock_def)

text \<open>
  C3: called with the null pointer, \<^verbatim>\<open>rkh_evtPool_getBlockSize\<close>, \<^verbatim>\<open>rkh_evtPool_get\<close> and
  \<^verbatim>\<open>rkh_evtPool_put\<close> call the assert hook, whereas \<^verbatim>\<open>rkh_evtPool_getNumUsed\<close>,
  \<^verbatim>\<open>rkh_evtPool_getNumMin\<close> and \<^verbatim>\<open>rkh_evtPool_getNumBlock\<close> return zero without calling
  it.
\<close>

theorem evtPool_null_instance:
  "rkh_evtPool_getBlockSize pools None = Inl (Assert_Fail ''rkhfwk_evtpool'') \<and>
   rkh_evtPool_get pools None = Inl (Assert_Fail ''rkhfwk_evtpool'') \<and>
   rkh_evtPool_put pools None evt = Inl (Assert_Fail ''rkhfwk_evtpool'') \<and>
   rkh_evtPool_getNumUsed pools None = Inr 0 \<and>
   rkh_evtPool_getNumMin pools None = Inr 0 \<and>
   rkh_evtPool_getNumBlock pools None = Inr 0"
  by (simp add: rkh_evtPool_getBlockSize_def rkh_evtPool_get_def rkh_evtPool_put_def
      RKH_REQUIRE_def rkh_evtPool_getNumUsed_def rkh_evtPool_getNumMin_def
      rkh_evtPool_getNumBlock_def)

subsection \<open>Registration\<close>

lemma init_loop_length: "length (init_loop n i pools) = length pools"
  by (induction n i pools rule: init_loop.induct) (subst init_loop.simps, simp)

lemma init_loop_isUsed:
  "j < length pools \<Longrightarrow>
   isUsed (init_loop n i pools ! j) = (if i \<le> j \<and> j < n then 0 else isUsed (pools ! j))"
proof (induction n i pools rule: init_loop.induct)
  case (1 n i pools)
  show ?case
  proof (cases "i < n")
    case True
    then show ?thesis
      using 1 by (subst init_loop.simps) (auto simp: nth_list_update)
  next
    case False
    then show ?thesis by (subst init_loop.simps) auto
  qed
qed

lemma used_upto_init: "length pools = n \<Longrightarrow> used_upto 0 (rkh_evtPool_init n pools)"
  by (simp add: used_upto_def rkh_evtPool_init_def init_loop_length init_loop_isUsed)

lemma init_loop_nth:
  "j < length pools \<Longrightarrow>
   init_loop n i pools ! j = (if i \<le> j \<and> j < n then (pools ! j)\<lparr>isUsed := 0\<rparr> else pools ! j)"
proof (induction n i pools rule: init_loop.induct)
  case (1 n i pools)
  show ?case
  proof (cases "i < n")
    case True
    let ?p = "pools[i := (pools ! i)\<lparr>isUsed := 0\<rparr>]"
    have ih: "init_loop n (i + 1) ?p ! j =
        (if i + 1 \<le> j \<and> j < n then (?p ! j)\<lparr>isUsed := 0\<rparr> else ?p ! j)"
      using 1 True by simp
    have e: "init_loop n i pools = init_loop n (i + 1) ?p"
      using True by (subst init_loop.simps) simp
    show ?thesis
    proof (cases "j = i")
      case eq: True
      then show ?thesis using ih e True 1(2) by simp
    next
      case False
      then have "?p ! j = pools ! j" by simp
      then show ?thesis using ih e False by auto
    qed
  next
    case False
    then show ?thesis by (subst init_loop.simps) auto
  qed
qed

lemma getPool_loop_find:
  "i \<le> k \<Longrightarrow> k < n \<Longrightarrow> \<forall>j. i \<le> j \<and> j < k \<longrightarrow> isUsed (pools ! j) \<noteq> 0 \<Longrightarrow>
   isUsed (pools ! k) = 0 \<Longrightarrow>
   getPool_loop w n i pools a b c = (Some k, pools[k := registered_slot w (pools ! k) (a, b, c)])"
proof (induction w n i pools a b c rule: getPool_loop.induct)
  case (1 w n i pools a b c)
  show ?case
  proof (cases "i = k")
    case True
    then show ?thesis
      using 1(3,5) by (subst getPool_loop.simps) (simp add: registered_slot_def)
  next
    case False
    then have lt: "i < k" using 1(2) by simp
    then have u: "isUsed (pools ! i) \<noteq> 0" using 1(4) by simp
    have "getPool_loop w n (i + 1) pools a b c =
      (Some k, pools[k := registered_slot w (pools ! k) (a, b, c)])"
      using 1(1) lt u 1(3,4,5) by simp
    then show ?thesis using lt u 1(3) by (subst getPool_loop.simps) simp
  qed
qed

lemma getPool_loop_full:
  "\<forall>j. i \<le> j \<and> j < n \<longrightarrow> isUsed (pools ! j) \<noteq> 0 \<Longrightarrow>
   getPool_loop w n i pools a b c = (None, pools)"
proof (induction w n i pools a b c rule: getPool_loop.induct)
  case (1 w n i pools a b c)
  show ?case
  proof (cases "i < n")
    case True
    then have u: "isUsed (pools ! i) \<noteq> 0" using 1(2) by simp
    have "getPool_loop w n (i + 1) pools a b c = (None, pools)"
      using 1(1) True u 1(2) by simp
    then show ?thesis using True u by (subst getPool_loop.simps) simp
  next
    case False
    then show ?thesis by (subst getPool_loop.simps) simp
  qed
qed

lemma getPool_free:
  assumes "length pools = n" "used_upto k pools" "k < n"
  shows "rkh_evtPool_getPool w n pools a b c =
     (Some k, pools[k := registered_slot w (pools ! k) (a, b, c)])"
  unfolding rkh_evtPool_getPool_def
  using assms by (intro getPool_loop_find) (auto simp: used_upto_def)

lemma getPool_full:
  assumes "length pools = n" "used_upto k pools" "n \<le> k"
  shows "rkh_evtPool_getPool w n pools a b c = (None, pools)"
  unfolding rkh_evtPool_getPool_def
  using assms by (intro getPool_loop_full) (auto simp: used_upto_def)

lemma used_upto_step:
  assumes "used_upto k pools" "k < length pools"
  shows "used_upto (Suc k) (pools[k := registered_slot w (pools ! k) r])"
  using assms by (auto simp: used_upto_def nth_list_update registered_slot_def split: prod.splits)

lemma getPool_many_results:
  "length pools = n \<Longrightarrow> used_upto k pools \<Longrightarrow> k \<le> n \<Longrightarrow>
   fst (getPool_many w n pools reqs) =
     map Some [k..<min (k + length reqs) n] @ replicate (k + length reqs - n) None
   \<and> length (snd (getPool_many w n pools reqs)) = n
   \<and> used_upto (min (k + length reqs) n) (snd (getPool_many w n pools reqs))
   \<and> (\<forall>j<n. snd (getPool_many w n pools reqs) ! j =
        (if k \<le> j \<and> j < k + length reqs then registered_slot w (pools ! j) (reqs ! (j - k))
         else pools ! j))"
proof (induction reqs arbitrary: pools k)
  case Nil
  then show ?case by (auto simp: min_absorb1)
next
  case (Cons r reqs)
  obtain a b c where r: "r = (a, b, c)" by (cases r)
  show ?case
  proof (cases "k < n")
    case True
    let ?p = "pools[k := registered_slot w (pools ! k) (a, b, c)]"
    have g: "rkh_evtPool_getPool w n pools a b c = (Some k, ?p)"
      using getPool_free Cons.prems True by simp
    have u: "used_upto (Suc k) ?p" using used_upto_step Cons.prems True by simp
    have l: "length ?p = n" using Cons.prems by simp
    have ih: "fst (getPool_many w n ?p reqs) =
       map Some [Suc k..<min (Suc k + length reqs) n] @ replicate (Suc k + length reqs - n) None
       \<and> length (snd (getPool_many w n ?p reqs)) = n
       \<and> used_upto (min (Suc k + length reqs) n) (snd (getPool_many w n ?p reqs))
       \<and> (\<forall>j<n. snd (getPool_many w n ?p reqs) ! j =
            (if Suc k \<le> j \<and> j < Suc k + length reqs
             then registered_slot w (?p ! j) (reqs ! (j - Suc k)) else ?p ! j))"
      using Cons.IH[OF l u] True by simp
    have up: "[k..<min (Suc k + length reqs) n] = k # [Suc k..<min (Suc k + length reqs) n]"
      using True by (simp add: upt_conv_Cons)
    have s: "snd (getPool_many w n pools (r # reqs)) = snd (getPool_many w n ?p reqs)"
      and f: "fst (getPool_many w n pools (r # reqs)) = Some k # fst (getPool_many w n ?p reqs)"
      using g by (simp_all add: r case_prod_beta)
    have 4: "\<forall>j<n. snd (getPool_many w n pools (r # reqs)) ! j =
        (if k \<le> j \<and> j < k + length (r # reqs)
         then registered_slot w (pools ! j) ((r # reqs) ! (j - k)) else pools ! j)"
    proof (intro allI impI)
      fix j assume j: "j < n"
      have e: "snd (getPool_many w n ?p reqs) ! j =
            (if Suc k \<le> j \<and> j < Suc k + length reqs
             then registered_slot w (?p ! j) (reqs ! (j - Suc k)) else ?p ! j)"
        using ih j by blast
      show "snd (getPool_many w n pools (r # reqs)) ! j =
        (if k \<le> j \<and> j < k + length (r # reqs)
         then registered_slot w (pools ! j) ((r # reqs) ! (j - k)) else pools ! j)"
      proof (cases "j = k")
        case True
        then show ?thesis using e s Cons.prems(1) j by (simp add: r)
      next
        case False
        then have "?p ! j = pools ! j" by simp
        moreover have "Suc k \<le> j \<Longrightarrow> (r # reqs) ! (j - k) = reqs ! (j - Suc k)"
          by (simp add: Suc_diff_le)
        ultimately show ?thesis using e s False by auto
      qed
    qed
    show ?thesis using ih f s up 4 by simp
  next
    case False
    then have kn: "k = n" using Cons.prems by simp
    have g: "rkh_evtPool_getPool w n pools a b c = (None, pools)"
      using getPool_full Cons.prems kn by simp
    have ih: "fst (getPool_many w n pools reqs) =
       map Some [k..<min (k + length reqs) n] @ replicate (k + length reqs - n) None
       \<and> length (snd (getPool_many w n pools reqs)) = n
       \<and> used_upto (min (k + length reqs) n) (snd (getPool_many w n pools reqs))
       \<and> (\<forall>j<n. snd (getPool_many w n pools reqs) ! j =
            (if k \<le> j \<and> j < k + length reqs
             then registered_slot w (pools ! j) (reqs ! (j - k)) else pools ! j))"
      using Cons.IH[OF Cons.prems] .
    show ?thesis using ih g kn by (simp add: r case_prod_beta)
  qed
qed

text \<open>
  C2: after \<^verbatim>\<open>rkh_evtPool_init\<close>, a sequence of calls of \<^verbatim>\<open>rkh_evtPool_getPool\<close> returns
  the slots 0, 1, ... in turn, so the first \<^verbatim>\<open>RKH_CFG_FWK_MAX_EVT_POOL\<close> results are
  non-null and pairwise distinct, and every later call returns the null pointer. Each
  successful call adds a pool to the registry: afterwards the slot of the \<open>j\<close>-th call
  holds the memory pool that \<^verbatim>\<open>rkh_mp_init\<close> makes of the storage and the event size of
  that call, and is marked as used, whereas the slots not yet taken are unused and keep
  their memory pool. Once \<^verbatim>\<open>RKH_CFG_FWK_MAX_EVT_POOL\<close> pools are registered, a further
  call leaves the registry as it is.
\<close>

theorem evtPool_registration:
  assumes "length pools = n"
  shows "fst (getPool_many w n (rkh_evtPool_init n pools) reqs) =
           map Some [0..<min (length reqs) n] @ replicate (length reqs - n) None
       \<and> distinct (take n (fst (getPool_many w n (rkh_evtPool_init n pools) reqs)))
       \<and> None \<notin> set (take n (fst (getPool_many w n (rkh_evtPool_init n pools) reqs)))
       \<and> length (snd (getPool_many w n (rkh_evtPool_init n pools) reqs)) = n
       \<and> (\<forall>j<n. snd (getPool_many w n (rkh_evtPool_init n pools) reqs) ! j =
            (if j < length reqs then registered_slot w (pools ! j) (reqs ! j)
             else (pools ! j)\<lparr>isUsed := 0\<rparr>))
       \<and> (n \<le> length reqs \<longrightarrow>
           rkh_evtPool_getPool w n (snd (getPool_many w n (rkh_evtPool_init n pools) reqs)) a b c =
             (None, snd (getPool_many w n (rkh_evtPool_init n pools) reqs)))"
proof -
  let ?s = "rkh_evtPool_init n pools"
  have l: "length ?s = n" using assms by (simp add: rkh_evtPool_init_def init_loop_length)
  have u: "used_upto 0 ?s" using used_upto_init[OF assms] .
  have nth: "?s ! j = (pools ! j)\<lparr>isUsed := 0\<rparr>" if "j < n" for j
    using that assms by (simp add: rkh_evtPool_init_def init_loop_nth)
  note R = getPool_many_results[OF l u, of w reqs, simplified]
  have 1: "fst (getPool_many w n ?s reqs) =
           map Some [0..<min (length reqs) n] @ replicate (length reqs - n) None"
    using R by simp
  have t: "take n (fst (getPool_many w n ?s reqs)) = map Some [0..<min (length reqs) n]"
    unfolding 1 by simp
  have 2: "distinct (take n (fst (getPool_many w n ?s reqs)))"
    unfolding t by (simp add: distinct_map)
  have 3: "None \<notin> set (take n (fst (getPool_many w n ?s reqs)))"
    unfolding t by auto
  have 4: "n \<le> length reqs \<longrightarrow>
         rkh_evtPool_getPool w n (snd (getPool_many w n ?s reqs)) a b c =
           (None, snd (getPool_many w n ?s reqs))"
  proof
    assume "n \<le> length reqs"
    then have "used_upto n (snd (getPool_many w n ?s reqs))" using R by (simp add: min_absorb2)
    then show "rkh_evtPool_getPool w n (snd (getPool_many w n ?s reqs)) a b c =
           (None, snd (getPool_many w n ?s reqs))"
      using getPool_full R by simp
  qed
  have 5: "length (snd (getPool_many w n ?s reqs)) = n" using R by simp
  have 6: "\<forall>j<n. snd (getPool_many w n ?s reqs) ! j =
            (if j < length reqs then registered_slot w (pools ! j) (reqs ! j)
             else (pools ! j)\<lparr>isUsed := 0\<rparr>)"
  proof (intro allI impI)
    fix j assume j: "j < n"
    have "snd (getPool_many w n ?s reqs) ! j =
          (if j < length reqs then registered_slot w (?s ! j) (reqs ! j) else ?s ! j)"
      using R j by simp
    then show "snd (getPool_many w n ?s reqs) ! j =
            (if j < length reqs then registered_slot w (pools ! j) (reqs ! j)
             else (pools ! j)\<lparr>isUsed := 0\<rparr>)"
      using nth[OF j] by (simp add: registered_slot_def split: prod.splits)
  qed
  show ?thesis using 1 2 3 4 5 6 by blast
qed

text \<open>
  A registry of two slots that holds leftovers, and three registrations with a block
  size type of 8 bits: the two pools have the block sizes 32 and 44, which is 300 modulo
  256; the third registration fails, and so does any further one.
\<close>

theorem evtPool_registration_witness:
  "length [leftover_pool 8 1, leftover_pool 4 0] = 2
   \<and> fst (getPool_many 8 2 (rkh_evtPool_init 2 [leftover_pool 8 1, leftover_pool 4 0])
        [(0, 128, 32), (128, 128, 300), (256, 128, 96)]) = [Some 0, Some 1, None]
   \<and> snd (getPool_many 8 2 (rkh_evtPool_init 2 [leftover_pool 8 1, leftover_pool 4 0])
        [(0, 128, 32), (128, 128, 300), (256, 128, 96)]) =
       [\<lparr>memPool = \<lparr>bsize = 32, nblocks = 4, free = [0, 32, 64, 96], nfree = 4, nmin = 4\<rparr>,
         isUsed = 1\<rparr>,
        \<lparr>memPool = \<lparr>bsize = 44, nblocks = 2, free = [128, 172], nfree = 2, nmin = 2\<rparr>,
         isUsed = 1\<rparr>]
   \<and> (2 \<le> length [(0::nat, 128::16 word, 32::nat), (128, 128, 300), (256, 128, 96)])
   \<and> rkh_evtPool_getPool 8 2 (snd (getPool_many 8 2
        (rkh_evtPool_init 2 [leftover_pool 8 1, leftover_pool 4 0])
        [(0, 128, 32), (128, 128, 300), (256, 128, 96)])) 384 128 16 =
      (None, snd (getPool_many 8 2 (rkh_evtPool_init 2 [leftover_pool 8 1, leftover_pool 4 0])
        [(0, 128, 32), (128, 128, 300), (256, 128, 96)]))"
proof -
  have l: "length [leftover_pool 8 1, leftover_pool 4 0] = 2" by simp
  have s: "snd (getPool_many 8 2 (rkh_evtPool_init 2 [leftover_pool 8 1, leftover_pool 4 0])
        [(0, 128, 32), (128, 128, 300), (256, 128, 96)]) =
       [\<lparr>memPool = \<lparr>bsize = 32, nblocks = 4, free = [0, 32, 64, 96], nfree = 4, nmin = 4\<rparr>,
         isUsed = 1\<rparr>,
        \<lparr>memPool = \<lparr>bsize = 44, nblocks = 2, free = [128, 172], nfree = 2, nmin = 2\<rparr>,
         isUsed = 1\<rparr>]"
    by code_simp
  show ?thesis
    using evtPool_registration [OF l, of 8
      "[(0, 128, 32), (128, 128, 300), (256, 128, 96)]" 384 128 16] s
    by (simp add: upt_conv_Cons)
qed
section \<open>Properties of the allocation from the registered pools\<close>


lemma bsize_mp_init [simp]: "bsize (rkh_mp_init mp a b c) = c"
  by (simp add: rkh_mp_init_def)













section \<open>Properties of the trace stream\<close>






























section \<open>Properties of the trace filters\<close>

declare fill_loop.simps [simp del]

lemma maptbl_read: "n < 8 \<Longrightarrow> tbl_read rkh_maptbl n = Some (2 ^ n)"
proof -
  assume "n < 8"
  then have "n \<in> {0, 1, 2, 3, 4, 5, 6, 7}" by auto
  then show ?thesis by (auto simp: tbl_read_def rkh_maptbl_def)
qed

lemma and_pow_bit: "(w AND 2 ^ n \<noteq> 0) = bit w n" for w :: "8 word"
  by (simp add: and_exp_eq_0_iff_not_bit)

lemma unat_8_lt: "unat (w :: 8 word) < 256"
  using unsigned_less[of w] by simp

lemma GETGRP_lt: "unat (GETGRP e) < 8"
proof -
  have "unat (GETGRP e) = unat (e AND 0xE0) div 32"
    by (simp add: GETGRP_def drop_bit_eq_div unat_div)
  then show ?thesis using unat_8_lt[of "e AND 0xE0"] by simp
qed

lemma GETEVT_lt: "unat (GETEVT e) < 32"
proof -
  have "GETEVT e \<le> 0x1F" unfolding GETEVT_def by (rule word_and_le1)
  then show ?thesis by (simp add: word_le_nat_alt)
qed

lemma unat_and_7: "unat (x AND 0x7) = unat x mod 8" for x :: "8 word"
proof -
  have "x AND 0x7 = take_bit 3 x" by (simp add: take_bit_eq_mask mask_numeral)
  then show ?thesis by (simp add: take_bit_eq_mod unat_mod)
qed

lemma unat_drop3: "unat (drop_bit 3 x) = unat x div 8" for x :: "8 word"
  by (simp add: drop_bit_eq_div unat_div)

lemma trcgmtbl_eval: "trcgmtbl = [0x01, 0x11, 0x21, 0x33, 0x61, 0x73, 0xA4]"
  by (simp add: trcgmtbl_def RKH_MP_TTBL_OFFSET_def RKH_RQ_TTBL_OFFSET_def RKH_SMA_TTBL_OFFSET_def
     RKH_SM_TTBL_OFFSET_def RKH_TIM_TTBL_OFFSET_def RKH_FWK_TTBL_OFFSET_def RKH_USR_TTBL_OFFSET_def
     RKH_MP_TTBL_RANGE_def RKH_RQ_TTBL_RANGE_def RKH_SMA_TTBL_RANGE_def
     RKH_SM_TTBL_RANGE_def RKH_TIM_TTBL_RANGE_def RKH_FWK_TTBL_RANGE_def RKH_USR_TTBL_RANGE_def)

lemma max_events: "RKH_TRC_MAX_EVENTS_IN_BYTES = 14"
  by (simp add: RKH_TRC_MAX_EVENTS_IN_BYTES_def 
     RKH_MP_TTBL_RANGE_def RKH_RQ_TTBL_RANGE_def RKH_SMA_TTBL_RANGE_def
     RKH_SM_TTBL_RANGE_def RKH_TIM_TTBL_RANGE_def RKH_FWK_TTBL_RANGE_def RKH_USR_TTBL_RANGE_def)

lemma group_layout:
  assumes "unat grp < 7"
  shows "tbl_read trcgmtbl (unat grp) = Some (trcgmtbl ! unat grp)"
    and "group_offset grp \<le> 10"
    and "group_offset grp + group_range grp \<le> 14"
proof -
  have g: "unat grp \<in> {0, 1, 2, 3, 4, 5, 6}" using assms by auto
  show "tbl_read trcgmtbl (unat grp) = Some (trcgmtbl ! unat grp)"
    using assms by (simp add: tbl_read_def trcgmtbl_eval)
  show "group_offset grp \<le> 10"
    using g by (auto simp: group_offset_def trcgmtbl_eval)
  show "group_offset grp + group_range grp \<le> 14"
    using g by (auto simp: group_offset_def group_range_def trcgmtbl_eval)
qed


lemma tbl_read_in: "i < length t \<Longrightarrow> tbl_read t i = Some (t ! i)"
  by (simp add: tbl_read_def)

lemma NGROUP_lt: "(grp < RKH_TG_NGROUP) = (unat grp < 7)"
  by (simp add: RKH_TG_NGROUP_def word_less_nat_alt)

lemma ev_index:
  assumes "unat (GETGRP e) < 7"
  shows "unat (drop_bit 4 (trcgmtbl ! unat (GETGRP e)) + drop_bit 3 (GETEVT e)) =
           group_offset (GETGRP e) + unat (GETEVT e) div 8"
    and "group_offset (GETGRP e) + unat (GETEVT e) div 8 < 14"
proof -
  have a: "unat (drop_bit 4 (trcgmtbl ! unat (GETGRP e))) \<le> 10"
    using group_layout(2)[OF assms] by (simp add: group_offset_def)
  have b: "unat (drop_bit 3 (GETEVT e)) = unat (GETEVT e) div 8" by (rule unat_drop3)
  have c: "unat (GETEVT e) div 8 \<le> 3" using GETEVT_lt[of e] by simp
  have "unat (drop_bit 4 (trcgmtbl ! unat (GETGRP e))) + unat (drop_bit 3 (GETEVT e)) < 2 ^ LENGTH(8)"
    using a b c by simp
  then have "unat (drop_bit 4 (trcgmtbl ! unat (GETGRP e)) + drop_bit 3 (GETEVT e)) =
      unat (drop_bit 4 (trcgmtbl ! unat (GETGRP e))) + unat (drop_bit 3 (GETEVT e))"
    using unat_add_lem by blast
  then show "unat (drop_bit 4 (trcgmtbl ! unat (GETGRP e)) + drop_bit 3 (GETEVT e)) =
           group_offset (GETGRP e) + unat (GETEVT e) div 8"
    using b by (simp add: group_offset_def)
  show "group_offset (GETGRP e) + unat (GETEVT e) div 8 < 14"
    using a c by (simp add: group_offset_def)
qed

lemma isoff_eq:
  assumes "length (trceftbl s) = RKH_TRC_MAX_EVENTS_IN_BYTES" "GETGRP e < RKH_TG_NGROUP"
  shows "rkh_trc_isoff_fn s e = Some (group_bit s e \<and> event_bit s e)"
proof -
  have g: "unat (GETGRP e) < 7" using assms(2) by (simp add: NGROUP_lt)
  then have g8: "unat (GETGRP e) < 8" by simp
  have k: "unat (GETEVT e) mod 8 < 8" by simp
  have l: "group_offset (GETGRP e) + unat (GETEVT e) div 8 < length (trceftbl s)"
    using ev_index(2)[OF g] assms(1) by (simp add: max_events)
  show ?thesis
    unfolding rkh_trc_isoff_fn_def Let_def
    by (simp add: maptbl_read[OF g8] maptbl_read[OF k] group_layout(1)[OF g] ev_index(1)[OF g]
        and_pow_bit group_bit_def event_bit_def tbl_read_in[OF l] unat_and_7)
qed

lemma isoff_group_clear:
  assumes "\<not> group_bit s e"
  shows "rkh_trc_isoff_fn s e = Some False"
  unfolding rkh_trc_isoff_fn_def Let_def
  using assms by (simp add: maptbl_read[OF GETGRP_lt] and_pow_bit group_bit_def)

lemma fill_loop_ok:
  "p + (rng - ix) \<le> length t \<Longrightarrow>
   \<exists>t'. fill_loop t p ix rng c = Some t' \<and> length t' = length t \<and>
        (\<forall>k<length t. t' ! k = (if p \<le> k \<and> k < p + (rng - ix) then c else t ! k))"
proof (induction t p ix rng c rule: fill_loop.induct)
  case (1 t p ix rng c)
  show ?case
  proof (cases "ix < rng")
    case True
    then have p: "p < length t" using 1(2) by simp
    have "p + 1 + (rng - (ix + 1)) \<le> length (t[p := c])" using True 1(2) by simp
    from 1(1)[OF True p this] obtain t' where
      t': "fill_loop (t[p := c]) (p + 1) (ix + 1) rng c = Some t'"
      "length t' = length (t[p := c])"
      "\<forall>k<length (t[p := c]). t' ! k =
         (if p + 1 \<le> k \<and> k < p + 1 + (rng - (ix + 1)) then c else t[p := c] ! k)"
      by blast
    have "fill_loop t p ix rng c = Some t'"
      using True p t'(1) by (subst fill_loop.simps) simp
    moreover have "length t' = length t" using t'(2) by simp
    moreover have "\<forall>k<length t. t' ! k = (if p \<le> k \<and> k < p + (rng - ix) then c else t ! k)"
    proof (intro allI impI)
      fix k assume k: "k < length t"
      show "t' ! k = (if p \<le> k \<and> k < p + (rng - ix) then c else t ! k)"
        using t'(3) k True p by (cases "k = p") (auto simp: nth_list_update)
    qed
    ultimately show ?thesis by blast
  next
    case False
    then show ?thesis by (subst fill_loop.simps) auto
  qed
qed

lemma bit_or_pow: "n < 8 \<Longrightarrow> bit (w OR 2 ^ n) n" for w :: "8 word"
  by (simp add: bit_simps)

lemma bit_and_not_pow: "\<not> bit (w AND NOT (2 ^ n)) n" for w :: "8 word"
  by (simp add: bit_simps)

lemma filter_event_off:
  assumes "length (trceftbl s) = RKH_TRC_MAX_EVENTS_IN_BYTES" "GETGRP e < RKH_TG_NGROUP"
  shows "\<exists>s'. rkh_trc_filter_event_fn FILTER_OFF e s = Some s' \<and>
              length (trceftbl s') = RKH_TRC_MAX_EVENTS_IN_BYTES \<and>
              group_bit s' e \<and> event_bit s' e"
proof -
  have g: "unat (GETGRP e) < 7" using assms(2) by (simp add: NGROUP_lt)
  then have g8: "unat (GETGRP e) < 8" by simp
  have k': "unat (GETEVT e) mod 8 < 8" by simp
  have l: "group_offset (GETGRP e) + unat (GETEVT e) div 8 < length (trceftbl s)"
    using ev_index(2)[OF g] assms(1) by (simp add: max_events)
  have ne: "e \<noteq> RKH_TRC_ALL_EVENTS"
  proof
    assume "e = RKH_TRC_ALL_EVENTS"
    then have "GETGRP e = 7" by (simp add: RKH_TRC_ALL_EVENTS_def RKH_TE_NEVENT_def GETGRP_def)
    then show False using g by simp
  qed
  let ?i = "group_offset (GETGRP e) + unat (GETEVT e) div 8"
  let ?s' = "s\<lparr>trceftbl := (trceftbl s)[?i := trceftbl s ! ?i OR 2 ^ (unat (GETEVT e) mod 8)],
               trcgfilter := trcgfilter s OR 2 ^ unat (GETGRP e)\<rparr>"
  have "rkh_trc_filter_event_fn FILTER_OFF e s = Some ?s'"
    unfolding rkh_trc_filter_event_fn_def Let_def
    using ne
    by (simp add: maptbl_read[OF g8] maptbl_read[OF k'] group_layout(1)[OF g] ev_index(1)[OF g]
        tbl_read_in[OF l] unat_and_7)
  moreover have "group_bit ?s' e" using bit_or_pow[OF g8] by (simp add: group_bit_def)
  moreover have "event_bit ?s' e" using l bit_or_pow[OF k'] by (simp add: event_bit_def)
  moreover have "length (trceftbl ?s') = RKH_TRC_MAX_EVENTS_IN_BYTES" using assms(1) by simp
  ultimately show ?thesis by blast
qed

lemma filter_group_on:
  assumes "length (trceftbl s) = RKH_TRC_MAX_EVENTS_IN_BYTES" "grp < RKH_TG_NGROUP"
  shows "\<exists>s'. rkh_trc_filter_group_fn FILTER_ON grp ECHANGE s = Some s' \<and>
              \<not> bit (trcgfilter s') (unat grp) \<and>
              (\<forall>k. group_offset grp \<le> k \<and> k < group_offset grp + group_range grp \<longrightarrow>
                   trceftbl s' ! k = 0)"
proof -
  have g: "unat grp < 7" using assms(2) by (simp add: NGROUP_lt)
  then have g8: "unat grp < 8" by simp
  have ne: "grp \<noteq> RKH_TRC_ALL_GROUPS"
    using g by (auto simp: RKH_TRC_ALL_GROUPS_def RKH_TG_NGROUP_def)
  have "group_offset grp + (group_range grp - 0) \<le> length (trceftbl s)"
    using group_layout(3)[OF g] assms(1) by (simp add: max_events)
  from fill_loop_ok[OF this, of 0] obtain t' where
    t': "fill_loop (trceftbl s) (group_offset grp) 0 (group_range grp) 0 = Some t'"
    "\<forall>k<length (trceftbl s). t' ! k =
       (if group_offset grp \<le> k \<and> k < group_offset grp + (group_range grp - 0) then 0
        else trceftbl s ! k)"
    by blast
  let ?s' = "s\<lparr>trcgfilter := trcgfilter s AND NOT (2 ^ unat grp), trceftbl := t'\<rparr>"
  have "rkh_trc_filter_group_fn FILTER_ON grp ECHANGE s = Some ?s'"
    unfolding rkh_trc_filter_group_fn_def Let_def
    using ne t'(1)
    by (simp add: maptbl_read[OF g8] group_layout(1)[OF g] FILTER_ON_def FILTER_OFF_def
        group_offset_def group_range_def)
  moreover have "\<not> bit (trcgfilter ?s') (unat grp)" using bit_and_not_pow by simp
  moreover have "\<forall>k. group_offset grp \<le> k \<and> k < group_offset grp + group_range grp \<longrightarrow>
                   trceftbl ?s' ! k = 0"
    using t'(2) group_layout(3)[OF g] assms(1) by (simp add: max_events)
  ultimately show ?thesis by blast
qed

text \<open>
  C5: for a trace event of one of the groups below \<^verbatim>\<open>RKH_TG_NGROUP\<close>, \<^verbatim>\<open>rkh_trc_isoff_\<close>
  reports it enabled exactly when the bit of its group and its own bit are both set;
  \<^verbatim>\<open>rkh_trc_filter_event_\<close> with \<^verbatim>\<open>FILTER_OFF\<close> sets both bits, so that the event is
  reported enabled; \<^verbatim>\<open>rkh_trc_filter_group_\<close> with \<^verbatim>\<open>FILTER_ON\<close> and \<^verbatim>\<open>ECHANGE\<close> clears
  the bit of the group and the bytes of its events, so that every event of the group is
  reported disabled.
\<close>

theorem trc_event_filter:
  assumes "length (trceftbl s) = RKH_TRC_MAX_EVENTS_IN_BYTES"
    and "GETGRP e < RKH_TG_NGROUP" and "grp < RKH_TG_NGROUP"
  shows "rkh_trc_isoff_fn s e = Some (group_bit s e \<and> event_bit s e)
    \<and> (\<exists>s'. rkh_trc_filter_event_fn FILTER_OFF e s = Some s' \<and> group_bit s' e \<and>
             event_bit s' e \<and> rkh_trc_isoff_fn s' e = Some True)
    \<and> (\<exists>s'. rkh_trc_filter_group_fn FILTER_ON grp ECHANGE s = Some s' \<and>
             (\<forall>e'. GETGRP e' = grp \<longrightarrow>
                   \<not> group_bit s' e' \<and> rkh_trc_isoff_fn s' e' = Some False) \<and>
             (\<forall>e'. GETGRP e' = grp \<and> unat (GETEVT e') div 8 < group_range grp \<longrightarrow>
                   \<not> event_bit s' e') \<and>
             (\<forall>k. group_offset grp \<le> k \<and> k < group_offset grp + group_range grp \<longrightarrow>
                   trceftbl s' ! k = 0))"
proof -
  have 1: "rkh_trc_isoff_fn s e = Some (group_bit s e \<and> event_bit s e)"
    using isoff_eq[OF assms(1,2)] .
  obtain s1 where s1: "rkh_trc_filter_event_fn FILTER_OFF e s = Some s1"
    "length (trceftbl s1) = RKH_TRC_MAX_EVENTS_IN_BYTES" "group_bit s1 e" "event_bit s1 e"
    using filter_event_off[OF assms(1,2)] by blast
  have "rkh_trc_isoff_fn s1 e = Some True"
    using isoff_eq[OF s1(2) assms(2)] s1(3,4) by simp
  then have 2: "\<exists>s'. rkh_trc_filter_event_fn FILTER_OFF e s = Some s' \<and> group_bit s' e \<and>
             event_bit s' e \<and> rkh_trc_isoff_fn s' e = Some True"
    using s1 by blast
  obtain s2 where s2: "rkh_trc_filter_group_fn FILTER_ON grp ECHANGE s = Some s2"
    "\<not> bit (trcgfilter s2) (unat grp)"
    "\<forall>k. group_offset grp \<le> k \<and> k < group_offset grp + group_range grp \<longrightarrow>
         trceftbl s2 ! k = 0"
    using filter_group_on[OF assms(1,3)] by blast
  have "\<forall>e'. GETGRP e' = grp \<longrightarrow> \<not> group_bit s2 e' \<and> rkh_trc_isoff_fn s2 e' = Some False"
  proof (intro allI impI)
    fix e' assume "GETGRP e' = grp"
    then have "\<not> group_bit s2 e'" using s2(2) by (simp add: group_bit_def)
    then show "\<not> group_bit s2 e' \<and> rkh_trc_isoff_fn s2 e' = Some False"
      using isoff_group_clear by simp
  qed
  moreover have "\<forall>e'. GETGRP e' = grp \<and> unat (GETEVT e') div 8 < group_range grp \<longrightarrow>
                   \<not> event_bit s2 e'"
  proof (intro allI impI)
    fix e' assume e': "GETGRP e' = grp \<and> unat (GETEVT e') div 8 < group_range grp"
    then have "trceftbl s2 ! (group_offset grp + unat (GETEVT e') div 8) = 0"
      using s2(3) by simp
    then show "\<not> event_bit s2 e'" using e' by (simp add: event_bit_def)
  qed
  ultimately have 3: "\<exists>s'. rkh_trc_filter_group_fn FILTER_ON grp ECHANGE s = Some s' \<and>
             (\<forall>e'. GETGRP e' = grp \<longrightarrow>
                   \<not> group_bit s' e' \<and> rkh_trc_isoff_fn s' e' = Some False) \<and>
             (\<forall>e'. GETGRP e' = grp \<and> unat (GETEVT e') div 8 < group_range grp \<longrightarrow>
                   \<not> event_bit s' e') \<and>
             (\<forall>k. group_offset grp \<le> k \<and> k < group_offset grp + group_range grp \<longrightarrow>
                   trceftbl s' ! k = 0)"
    using s2 by blast
  show ?thesis using 1 2 3 by blast
qed

text \<open>The event 0x63 of the group 3, with its own bit and the bit of its group clear.\<close>

theorem trc_event_filter_witness:
  "length (trceftbl \<lparr>trceftbl = [1, 2, 3, 0xF7, 0xFF, 0xFF, 0xFF, 0, 0, 0, 0, 0, 0, 0],
                     trcgfilter = 0xF7\<rparr>) = RKH_TRC_MAX_EVENTS_IN_BYTES
   \<and> GETGRP 0x63 < RKH_TG_NGROUP \<and> (3 :: 8 word) < RKH_TG_NGROUP
   \<and> rkh_trc_isoff_fn \<lparr>trceftbl = [1, 2, 3, 0xF7, 0xFF, 0xFF, 0xFF, 0, 0, 0, 0, 0, 0, 0],
                        trcgfilter = 0xF7\<rparr> 0x63 = Some False
   \<and> rkh_trc_filter_event_fn FILTER_OFF 0x63
        \<lparr>trceftbl = [1, 2, 3, 0xF7, 0xFF, 0xFF, 0xFF, 0, 0, 0, 0, 0, 0, 0], trcgfilter = 0xF7\<rparr> =
      Some \<lparr>trceftbl = [1, 2, 3, 0xFF, 0xFF, 0xFF, 0xFF, 0, 0, 0, 0, 0, 0, 0], trcgfilter = 0xFF\<rparr>
   \<and> rkh_trc_isoff_fn \<lparr>trceftbl = [1, 2, 3, 0xFF, 0xFF, 0xFF, 0xFF, 0, 0, 0, 0, 0, 0, 0],
                        trcgfilter = 0xFF\<rparr> 0x63 = Some True
   \<and> rkh_trc_filter_group_fn FILTER_ON 3 ECHANGE
        \<lparr>trceftbl = [1, 2, 3, 0xF7, 0xFF, 0xFF, 0xFF, 0, 0, 0, 0, 0, 0, 0], trcgfilter = 0xF7\<rparr> =
      Some \<lparr>trceftbl = [1, 2, 3, 0, 0, 0, 0xFF, 0, 0, 0, 0, 0, 0, 0], trcgfilter = 0xF7\<rparr>
   \<and> rkh_trc_isoff_fn \<lparr>trceftbl = [1, 2, 3, 0, 0, 0, 0xFF, 0, 0, 0, 0, 0, 0, 0],
                        trcgfilter = 0xF7\<rparr> 0x6A = Some False"
proof -
  let ?s = "\<lparr>trceftbl = [1, 2, 3, 0xF7, 0xFF, 0xFF, 0xFF, 0, 0, 0, 0, 0, 0, 0],
             trcgfilter = (0xF7 :: 8 word)\<rparr>"
  have h1: "length (trceftbl ?s) = RKH_TRC_MAX_EVENTS_IN_BYTES" by code_simp
  have h2: "GETGRP 0x63 < RKH_TG_NGROUP" by code_simp
  have h3: "(3 :: 8 word) < RKH_TG_NGROUP" by code_simp
  have e1: "rkh_trc_filter_event_fn FILTER_OFF 0x63 ?s =
      Some \<lparr>trceftbl = [1, 2, 3, 0xFF, 0xFF, 0xFF, 0xFF, 0, 0, 0, 0, 0, 0, 0], trcgfilter = 0xFF\<rparr>"
    by code_simp
  have e2: "rkh_trc_filter_group_fn FILTER_ON 3 ECHANGE ?s =
      Some \<lparr>trceftbl = [1, 2, 3, 0, 0, 0, 0xFF, 0, 0, 0, 0, 0, 0, 0], trcgfilter = 0xF7\<rparr>"
    by code_simp
  have e3: "GETGRP 0x6A = 3" by code_simp
  have b: "group_bit ?s 0x63 = False" by code_simp
  show ?thesis
    using trc_event_filter [OF h1 h2 h3] h1 h2 h3 e3 by (simp add: e1 e2 b)
qed

subsection \<open>Filters by slot\<close>












subsection \<open>Filter by active object priority\<close>

lemma unat_and_7': "unat (x AND 0x07) = unat x mod 8" for x :: "8 word"
  using unat_and_7[of x] by simp

lemma max_sma_length:
  assumes "RKH_TRC_MAX_SMA max_sma = Some len" "p < max_sma"
  shows "p div 8 < len"
  using assms by (auto simp: RKH_TRC_MAX_SMA_def split: if_splits)

text \<open>
  C10, as the code has it: for the priority \<^verbatim>\<open>RKH_MAX_SMA\<close>, \<^verbatim>\<open>rkh_trc_sma_isoff_\<close>
  returns 1 for every content of the table, so that the trace point is never filtered
  out; for a priority below \<^verbatim>\<open>RKH_MAX_SMA\<close> the result is 1 exactly when the bit of
  the priority in the table is clear.
\<close>

theorem trc_sma_isoff_max_passes:
  assumes "RKH_TRC_MAX_SMA max_sma = Some (length trcsmaftbl)"
  shows "(unat prio = max_sma \<longrightarrow>
            rkh_trc_sma_isoff_fn max_sma trcsmaftbl prio = Some True \<and>
            \<not> sma_filtered_out max_sma trcsmaftbl prio)
       \<and> (unat prio < max_sma \<longrightarrow>
            rkh_trc_sma_isoff_fn max_sma trcsmaftbl prio =
              Some (\<not> bit (trcsmaftbl ! (unat prio div 8)) (unat prio mod 8)))"
proof -
  have 1: "unat prio = max_sma \<longrightarrow>
            rkh_trc_sma_isoff_fn max_sma trcsmaftbl prio = Some True \<and>
            \<not> sma_filtered_out max_sma trcsmaftbl prio"
    by (simp add: rkh_trc_sma_isoff_fn_def sma_filtered_out_def)
  have 2: "unat prio < max_sma \<longrightarrow>
            rkh_trc_sma_isoff_fn max_sma trcsmaftbl prio =
              Some (\<not> bit (trcsmaftbl ! (unat prio div 8)) (unat prio mod 8))"
  proof
    assume lt: "unat prio < max_sma"
    have y: "unat prio div 8 < length trcsmaftbl" using max_sma_length[OF assms lt] .
    have x: "unat prio mod 8 < 8" by simp
    have a: "(trcsmaftbl ! (unat prio div 8) AND 2 ^ (unat prio mod 8) = 0) =
             (\<not> bit (trcsmaftbl ! (unat prio div 8)) (unat prio mod 8))"
      by (simp add: and_exp_eq_0_iff_not_bit)
    show "rkh_trc_sma_isoff_fn max_sma trcsmaftbl prio =
              Some (\<not> bit (trcsmaftbl ! (unat prio div 8)) (unat prio mod 8))"
      unfolding rkh_trc_sma_isoff_fn_def
      using lt by (simp add: unat_drop3 unat_and_7' tbl_read_in[OF y] maptbl_read[OF x] a)
  qed
  show ?thesis using 1 2 by blast
qed

text \<open>Eight priorities, of which 0 and 2 are filtered.\<close>

theorem trc_sma_isoff_max_passes_witness:
  "RKH_TRC_MAX_SMA 8 = Some (length [0x05 :: 8 word])
   \<and> unat (8 :: 8 word) = 8
   \<and> rkh_trc_sma_isoff_fn 8 [0x05] 8 = Some True
   \<and> unat (2 :: 8 word) < 8
   \<and> rkh_trc_sma_isoff_fn 8 [0x05] 2 = Some False
   \<and> rkh_trc_sma_isoff_fn 8 [0x05] 1 = Some True"
proof -
  have h: "RKH_TRC_MAX_SMA 8 = Some (length [0x05 :: 8 word])" by (simp add: RKH_TRC_MAX_SMA_def)
  have b2: "bit (0x05 :: 8 word) 2" by code_simp
  have b1: "\<not> bit (0x05 :: 8 word) 1" by code_simp
  show ?thesis
    using h trc_sma_isoff_max_passes [OF h, of 8] trc_sma_isoff_max_passes [OF h, of 2]
      trc_sma_isoff_max_passes [OF h, of 1] b1 b2
    by simp
qed

text \<open>
  C10 as stated fails: with every bit of the table set, the priority \<^verbatim>\<open>RKH_MAX_SMA\<close> is
  still reported as not filtered.
\<close>

theorem trc_sma_isoff_max_counterexample:
  "rkh_trc_sma_isoff_fn 8 [0xFF] 8 = Some True \<and> \<not> sma_filtered_out 8 [0xFF] 8"
  by (simp add: rkh_trc_sma_isoff_fn_def sma_filtered_out_def)

end
